theory Spec2Isabelle
  imports Main "HOL-Library.Word"
begin

section \<open>The video decoder of video2x (\<^verbatim>\<open>video2x/decoder.py\<close>)\<close>

text \<open>
  \<^verbatim>\<open>VideoDecoder\<close> starts an FFmpeg process that writes raw RGB frames to a pipe, reads the
  pipe in chunks of \<^verbatim>\<open>3 * input_width * input_height\<close> bytes, turns each chunk into an image
  and puts every image together with its predecessor on a queue.

  The class is embedded as a record, its methods as functions that take the object and return
  it updated. The objects it talks to are part of the model:
  \<^item> the pipe is the finite sequence of bytes the process still has to deliver, followed by
    the way the pipe ends (end of file, or a fault raised by \<^verbatim>\<open>read\<close>); a read of a size
    that is outside the index range, negative, or too large to allocate raises;
  \<^item> the queue is the list of the items put so far, in order; whether a \<^verbatim>\<open>put\<close> raises is a
    parameter of the model (\<open>put_fault\<close>). A \<^verbatim>\<open>put\<close> that blocks on a full queue is taken to
    return once the consumer has made room;
  \<^item> the log is the list of the records passed to the logger;
  \<^item> a call of \<^verbatim>\<open>stop()\<close> by the owning thread while \<^verbatim>\<open>run()\<close> executes is a parameter of
    the loop (\<open>owner_stop\<close>).
\<close>

subsection \<open>Exceptions\<close>

text \<open>
  The two handlers of \<^verbatim>\<open>run\<close> tell three kinds of exception apart: an instance of
  \<^verbatim>\<open>ValueError\<close>; an instance of \<^verbatim>\<open>Exception\<close> that is no \<^verbatim>\<open>ValueError\<close> (\<^verbatim>\<open>OSError\<close>,
  \<^verbatim>\<open>MemoryError\<close>, ...); and an instance of \<^verbatim>\<open>BaseException\<close> that is no \<^verbatim>\<open>Exception\<close>
  (\<^verbatim>\<open>KeyboardInterrupt\<close>, \<^verbatim>\<open>SystemExit\<close>). The string is the message.
\<close>

datatype exn = ValueError string | Exception string | BaseException string

fun isinstance_ValueError :: "exn \<Rightarrow> bool" where
  "isinstance_ValueError (ValueError m) = True"
| "isinstance_ValueError (Exception m) = False"
| "isinstance_ValueError (BaseException m) = False"

fun isinstance_Exception :: "exn \<Rightarrow> bool" where
  "isinstance_Exception (ValueError m) = True"
| "isinstance_Exception (Exception m) = True"
| "isinstance_Exception (BaseException m) = False"

subsection \<open>The log level table (lines 24 to 32) and its lookup (lines 67 to 69)\<close>

definition LOGURU_FFMPEG_LOGLEVELS :: "(string \<times> string) list" where
  "LOGURU_FFMPEG_LOGLEVELS =
     [(''trace'', ''trace''),
      (''debug'', ''debug''),
      (''info'', ''info''),
      (''success'', ''info''),
      (''warning'', ''warning''),
      (''error'', ''error''),
      (''critical'', ''fatal'')]"

text \<open>\<^verbatim>\<open>d.get(key)\<close> without a default: \<^verbatim>\<open>None\<close> for a key that is missing.\<close>

definition dict_get :: "('k \<times> 'v) list \<Rightarrow> 'k \<Rightarrow> 'v option" where
  "dict_get d key = map_of d key"

text \<open>\<^verbatim>\<open>os.environ.get(key, default)\<close>; the environment is a map from names to values.\<close>

definition environ_get :: "(string \<rightharpoonup> string) \<Rightarrow> string \<Rightarrow> string \<Rightarrow> string" where
  "environ_get environ key fallback = (case environ key of None \<Rightarrow> fallback | Some v \<Rightarrow> v)"

text \<open>
  \<^verbatim>\<open>str.lower()\<close> on the characters of a \<open>string\<close>: the letters A to Z are mapped to a to z,
  every other character is kept. Capitals outside ASCII are left as they are; none of them
  is mapped to a letter of the keys of the table, so the lookup is the same.
\<close>

definition lower_char :: "char \<Rightarrow> char" where
  "lower_char c =
     (let n = (of_char c :: nat) in if 65 \<le> n \<and> n \<le> 90 then char_of (n + 32) else c)"

definition lower :: "string \<Rightarrow> string" where
  "lower s = map lower_char s"

text \<open>The value passed after \<^verbatim>\<open>-loglevel\<close> (lines 67 to 69); \<open>None\<close> is Python's \<^verbatim>\<open>None\<close>.\<close>

definition loglevel :: "(string \<rightharpoonup> string) \<Rightarrow> string option" where
  "loglevel environ =
     dict_get LOGURU_FFMPEG_LOGLEVELS (lower (environ_get environ ''LOGURU_LEVEL'' ''INFO''))"

subsection \<open>The pipe, the process, the images and the queue\<close>

type_synonym byte = "8 word"

text \<open>
  \<^verbatim>\<open>sys.maxsize\<close>, the largest size that fits the index type of the interpreter (of a 64-bit
  build).
\<close>

definition maxsize :: int where
  "maxsize = 2 ^ 63 - 1"

text \<open>
  The pipe: the bytes still to come, how it ends (with the end of file, or with a fault that
  \<^verbatim>\<open>read\<close> raises), and the size of the largest buffer that the interpreter can allocate for
  a read.
\<close>

record pipe =
  pending :: "byte list"
  ending :: "exn option"
  allocatable :: int

text \<open>
  \<^verbatim>\<open>stdout.read(n)\<close> on the buffered pipe. A size outside the index range raises
  \<^verbatim>\<open>OverflowError\<close>, a negative size other than -1 raises \<^verbatim>\<open>ValueError\<close>, and a size for
  which no buffer can be allocated raises \<^verbatim>\<open>MemoryError\<close>. Otherwise the read returns exactly
  \<open>n\<close> bytes when that many are still to come; if not, it runs into the end of the pipe, and
  returns what was left (nothing, at the end of file) or raises the pipe's fault. The size -1
  reads up to the end, zero reads nothing.
\<close>

definition read :: "pipe \<Rightarrow> int \<Rightarrow> exn + (byte list \<times> pipe)" where
  "read p n =
     (if n < - maxsize - 1 \<or> maxsize < n
      then Inl (Exception ''OverflowError'')
      else if n < - 1
      then Inl (ValueError ''read length must be non-negative or -1'')
      else if allocatable p < n
      then Inl (Exception ''MemoryError'')
      else if 0 \<le> n \<and> nat n \<le> length (pending p)
      then Inr (take (nat n) (pending p), p\<lparr>pending := drop (nat n) (pending p)\<rparr>)
      else (case ending p of
              None \<Rightarrow> Inr (pending p, p\<lparr>pending := []\<rparr>)
            | Some e \<Rightarrow> Inl e))"

record Popen =
  stdout :: pipe
  waited :: bool

text \<open>\<^verbatim>\<open>Popen.wait()\<close>: the process is reaped (it is taken to exit).\<close>

definition wait :: "Popen \<Rightarrow> Popen" where
  "wait p = p\<lparr>waited := True\<rparr>"

record Image =
  im_size :: "int \<times> int"
  im_data :: "byte list"

text \<open>
  Modelled from the spec: \<^verbatim>\<open>Image.frombytes("RGB", (width, height), buffer)\<close> of the imaging
  library (imported on line 19, no part of the sources). A frame is the raw pixel buffer
  tagged with width and height, three bytes a pixel; a buffer that is too short is rejected
  with the \<^verbatim>\<open>ValueError\<close> that the comment on line 121 names, as is a negative size.
\<close>

definition Image_frombytes :: "int \<times> int \<Rightarrow> byte list \<Rightarrow> exn + Image" where
  "Image_frombytes sz buffer =
     (case sz of (w, h) \<Rightarrow>
        if w < 0 \<or> h < 0 then Inl (ValueError ''Width and height must be >= 0'')
        else if length buffer < nat (3 * w * h) then Inl (ValueError ''not enough image data'')
        else Inr \<lparr>im_size = (w, h), im_data = take (nat (3 * w * h)) buffer\<rparr>)"

text \<open>
  Modelled from the spec: \<^verbatim>\<open>Image.tobytes()\<close> of the imaging library, the serialisation of a
  frame's pixel buffer back to bytes.
\<close>

definition Image_tobytes :: "Image \<Rightarrow> byte list" where
  "Image_tobytes img = im_data img"

text \<open>An item of the queue: \<^verbatim>\<open>(frame_index, (previous_image, image), processing_settings)\<close>.\<close>

type_synonym 'st work_item = "int \<times> (Image \<times> Image) \<times> 'st"

text \<open>
  \<^verbatim>\<open>processing_queue.put(item)\<close>: \<open>put_fault\<close> says, from the items put so far and the new
  item, whether the call raises; if not, the item is appended.
\<close>

definition put ::
  "('a list \<Rightarrow> 'a \<Rightarrow> exn option) \<Rightarrow> 'a list \<Rightarrow> 'a \<Rightarrow> exn + 'a list" where
  "put put_fault q item =
     (case put_fault q item of Some e \<Rightarrow> Inl e | None \<Rightarrow> Inr (q @ [item]))"

subsection \<open>The class \<^verbatim>\<open>VideoDecoder\<close>\<close>

text \<open>
  What the logger is given: the message of \<^verbatim>\<open>logger.debug\<close>, the exception of
  \<^verbatim>\<open>logger.exception\<close>.
\<close>

datatype log_record = Debug string | Logged_exception exn

text \<open>
  The attributes that \<^verbatim>\<open>__init__\<close> sets, in its order; \<open>processing_queue\<close> holds the items
  put on the queue so far and \<open>decoder\<close> the process with its pipe. \<open>logger\<close> is no attribute:
  it stands for the log of the module's logger.
\<close>

record 'st VideoDecoder =
  running :: bool
  input_path :: string
  input_width :: int
  input_height :: int
  processing_queue :: "'st work_item list"
  processing_settings :: 'st
  exception :: "exn option"
  decoder :: Popen
  logger :: "log_record list"

text \<open>
  The command handed to \<^verbatim>\<open>subprocess.Popen\<close> (lines 60 to 72), as the source builds it:
  the input with its rate, the selected stream, the output with its options, the global
  arguments and the overwrite flag. The frame rate is of any type \<open>'r\<close>.
\<close>

record 'r command =
  input_filename :: string
  input_r :: 'r
  stream_selector :: string
  output_filename :: string
  output_kwargs :: "(string \<times> string) list"
  global_args :: "string option list"
  overwrite_output :: bool

definition compile :: "(string \<rightharpoonup> string) \<Rightarrow> string \<Rightarrow> 'r \<Rightarrow> 'r command" where
  "compile environ path frame_rate =
     \<lparr>input_filename = path,
      input_r = frame_rate,
      stream_selector = ''v'',
      output_filename = ''pipe:1'',
      output_kwargs = [(''format'', ''rawvideo''), (''pix_fmt'', ''rgb24''), (''vsync'', ''1'')],
      global_args =
        [Some ''-hide_banner'', Some ''-nostats'', Some ''-loglevel'', loglevel environ],
      overwrite_output = True\<rparr>"

text \<open>
  \<^verbatim>\<open>__init__\<close> (lines 36 to 75). \<open>subprocess_Popen\<close> is the operating system's answer to the
  launch: the new process, or the exception raised (for a binary that is not there,
  \<^verbatim>\<open>FileNotFoundError\<close>). An exception leaves \<^verbatim>\<open>__init__\<close>, and no object exists. The setting
  of \<^verbatim>\<open>Image.MAX_IMAGE_PIXELS\<close> (lines 55 and 56) touches no part of this model.
\<close>

definition VideoDecoder_init ::
  "('r command \<Rightarrow> exn + Popen) \<Rightarrow> (string \<rightharpoonup> string) \<Rightarrow> log_record list \<Rightarrow>
   string \<Rightarrow> int \<Rightarrow> int \<Rightarrow> 'r \<Rightarrow> 'st work_item list \<Rightarrow> 'st \<Rightarrow> exn + 'st VideoDecoder" where
  "VideoDecoder_init subprocess_Popen environ log path width height frame_rate queue settings =
     (case subprocess_Popen (compile environ path frame_rate) of
        Inl e \<Rightarrow> Inl e
      | Inr process \<Rightarrow>
          Inr \<lparr>running = False,
               input_path = path,
               input_width = width,
               input_height = height,
               processing_queue = queue,
               processing_settings = settings,
               exception = None,
               decoder = process,
               logger = log\<rparr>)"

text \<open>\<^verbatim>\<open>stop\<close> (lines 139 and 140).\<close>

definition stop :: "'st VideoDecoder \<Rightarrow> 'st VideoDecoder" where
  "stop self = self\<lparr>running := False\<rparr>"

subsection \<open>The loop of \<^verbatim>\<open>run\<close> (lines 89 to 130)\<close>

text \<open>
  How the \<^verbatim>\<open>try\<close> block (lines 91 to 119) ends: it falls through to the next test of the
  loop condition, with the local variables \<^verbatim>\<open>frame_index\<close> and \<^verbatim>\<open>previous_image\<close>; it leaves
  the loop by \<^verbatim>\<open>break\<close>; or it raises.
\<close>

datatype 'st completion =
  Normal "'st VideoDecoder" int "Image option"
| Broke "'st VideoDecoder"
| Raised exn "'st VideoDecoder"

definition try_block ::
  "('st work_item list \<Rightarrow> 'st work_item \<Rightarrow> exn option) \<Rightarrow>
   'st VideoDecoder \<Rightarrow> int \<Rightarrow> Image option \<Rightarrow> 'st completion" where
  "try_block put_fault self frame_index previous_image =
     (case read (stdout (decoder self)) (3 * input_width self * input_height self) of
        Inl e \<Rightarrow> Raised e self
      | Inr (buffer, rest) \<Rightarrow>
          (let self = self\<lparr>decoder := (decoder self)\<lparr>stdout := rest\<rparr>\<rparr> in
           if length buffer = 0
           then Broke (self\<lparr>logger := logger self @ [Debug ''Decoding queue depleted'']\<rparr>)
           else
             (case Image_frombytes (input_width self, input_height self) buffer of
                Inl e \<Rightarrow> Raised e self
              | Inr img \<Rightarrow>
                  (case previous_image of
                     None \<Rightarrow> Normal self (frame_index + 1) (Some img)
                   | Some previous \<Rightarrow>
                       (case put put_fault (processing_queue self)
                               (frame_index, (previous, img), processing_settings self) of
                          Inl e \<Rightarrow> Raised e self
                        | Inr q \<Rightarrow>
                            Normal (self\<lparr>processing_queue := q\<rparr>)
                              (frame_index + 1) (Some img))))))"

text \<open>
  One pass through the body of the loop: the \<^verbatim>\<open>try\<close> block with its two handlers (lines 122
  to 130). Either the loop goes on, or it is left, or an exception that no handler catches
  leaves \<^verbatim>\<open>run\<close> (\<open>Inl\<close>).
\<close>

datatype 'st step =
  Next "'st VideoDecoder" int "Image option"
| Exit "'st VideoDecoder"

definition iteration ::
  "('st work_item list \<Rightarrow> 'st work_item \<Rightarrow> exn option) \<Rightarrow>
   'st VideoDecoder \<Rightarrow> int \<Rightarrow> Image option \<Rightarrow> exn + 'st step" where
  "iteration put_fault self frame_index previous_image =
     (case try_block put_fault self frame_index previous_image of
        Normal self' frame_index' previous_image' \<Rightarrow>
          Inr (Next self' frame_index' previous_image')
      | Broke self' \<Rightarrow> Inr (Exit self')
      | Raised e self' \<Rightarrow>
          if isinstance_ValueError e
          then Inr (Exit (self'\<lparr>logger := logger self' @ [Logged_exception e]\<rparr>))
          else if isinstance_Exception e
          then Inr (Exit (self'\<lparr>exception := Some e,
                                logger := logger self' @ [Logged_exception e]\<rparr>))
          else Inl e)"

text \<open>
  The \<^verbatim>\<open>while self.running\<close> loop. \<open>k\<close> counts the tests of the loop condition made so far.
  \<open>owner_stop = Some k\<close> says that the owning thread calls \<^verbatim>\<open>stop()\<close> after \<^verbatim>\<open>run\<close> has set the
  flag on line 78, some time between test \<open>k - 1\<close> and test \<open>k\<close>, that is during pass
  \<open>k - 1\<close> of the body (before the first test for \<open>k = 0\<close>): the body neither reads nor writes
  the flag, so test \<open>k\<close> is the first to see it. \<open>None\<close>: nobody calls \<^verbatim>\<open>stop()\<close>.
\<close>

function loop ::
  "('st work_item list \<Rightarrow> 'st work_item \<Rightarrow> exn option) \<Rightarrow> nat option \<Rightarrow> nat \<Rightarrow>
   'st VideoDecoder \<Rightarrow> int \<Rightarrow> Image option \<Rightarrow> exn + 'st VideoDecoder" where
  "loop put_fault owner_stop k self frame_index previous_image =
     (let self = (if owner_stop = Some k then stop self else self) in
      if running self
      then
        (case iteration put_fault self frame_index previous_image of
           Inl e \<Rightarrow> Inl e
         | Inr (Next self' frame_index' previous_image') \<Rightarrow>
             loop put_fault owner_stop (Suc k) self' frame_index' previous_image'
         | Inr (Exit self') \<Rightarrow> Inr self')
      else Inr self)"
  by pat_completeness auto
termination
proof (relation "measure (\<lambda>(put_fault, owner_stop, k, self, frame_index, previous_image).
                   length (pending (stdout (decoder self))))")
  show "wf (measure (\<lambda>(put_fault :: 'st work_item list \<Rightarrow> 'st work_item \<Rightarrow> exn option,
                       owner_stop :: nat option, k :: nat, self :: 'st VideoDecoder,
                       frame_index :: int, previous_image :: Image option).
                   length (pending (stdout (decoder self)))))"
    by simp
next
  fix put_fault :: "'st work_item list \<Rightarrow> 'st work_item \<Rightarrow> exn option"
    and owner_stop :: "nat option" and k :: nat and self x :: "'st VideoDecoder"
    and frame_index :: int and previous_image :: "Image option"
    and r :: "'st step" and self' :: "'st VideoDecoder" and frame_index' :: int
    and previous_image' :: "Image option"
  assume x: "x = (if owner_stop = Some k then stop self else self)"
    and "running x"
    and it: "iteration put_fault x frame_index previous_image = Inr r"
    and r: "r = Next self' frame_index' previous_image'"
  from it r have "try_block put_fault x frame_index previous_image =
      Normal self' frame_index' previous_image'"
    by (auto simp: iteration_def split: completion.splits if_splits)
  moreover have shorter: "length (pending rest) < length (pending p)"
    if "read p n = Inr (buffer, rest)" and "buffer \<noteq> []" for p n buffer rest
    using that by (auto simp: read_def split: if_splits option.splits)
  ultimately
  have "length (pending (stdout (decoder self'))) < length (pending (stdout (decoder x)))"
    by (auto simp: try_block_def Let_def put_def dest: shorter
        split: sum.splits prod.splits if_splits option.splits)
  moreover have "decoder x = decoder self"
    using x by (simp add: stop_def)
  ultimately show
    "((put_fault, owner_stop, Suc k, self', frame_index', previous_image'),
      (put_fault, owner_stop, k, self, frame_index, previous_image))
     \<in> measure (\<lambda>(put_fault, owner_stop, k, self, frame_index, previous_image).
                   length (pending (stdout (decoder self))))"
    by simp
qed

declare loop.simps [simp del]

text \<open>
  \<^verbatim>\<open>run\<close> (lines 77 to 137): the flag is set, the loop runs from frame index 0 with no previous
  image, then the process is waited for, the exit is logged and the flag is cleared.
  \<^verbatim>\<open>super().run()\<close> of a thread without a target does nothing. \<open>Inl e\<close>: the exception \<open>e\<close>
  leaves \<^verbatim>\<open>run\<close>.
\<close>

definition run ::
  "('st work_item list \<Rightarrow> 'st work_item \<Rightarrow> exn option) \<Rightarrow> nat option \<Rightarrow>
   'st VideoDecoder \<Rightarrow> exn + 'st VideoDecoder" where
  "run put_fault owner_stop self =
     (case loop put_fault owner_stop 0 (self\<lparr>running := True\<rparr>) 0 None of
        Inl e \<Rightarrow> Inl e
      | Inr self \<Rightarrow>
          Inr (self\<lparr>decoder := wait (decoder self),
                    logger := logger self @ [Debug ''Decoder thread exiting''],
                    running := False\<rparr>))"

subsection \<open>Notions used in the statements\<close>

text \<open>
  The image that the frame conversion makes of a chunk of the right size (lemma
  \<open>Image_frombytes_chunk\<close>), and the items that the loop puts for a sequence of images, from
  the frame index \<open>i\<close> and the previous image on.
\<close>

definition frame :: "int \<times> int \<Rightarrow> byte list \<Rightarrow> Image" where
  "frame sz chunk = \<lparr>im_size = sz, im_data = chunk\<rparr>"

fun pairs :: "'st \<Rightarrow> int \<Rightarrow> Image option \<Rightarrow> Image list \<Rightarrow> 'st work_item list" where
  "pairs st i previous [] = []"
| "pairs st i None (x # xs) = pairs st (i + 1) (Some x) xs"
| "pairs st i (Some p) (x # xs) = (i, (p, x), st) # pairs st (i + 1) (Some x) xs"

text \<open>
  How the loop was left, read off the object before (\<open>self\<close>) and after (\<open>self'\<close>) and the log
  records \<open>new\<close> written in between: by the test of the flag (nothing logged) or by the empty
  read, with the slot \<^verbatim>\<open>exception\<close> unchanged; or by an exception \<open>e\<close>, logged by its handler,
  which is in the slot unless it is a \<^verbatim>\<open>ValueError\<close>.
\<close>

definition left_loop :: "'st VideoDecoder \<Rightarrow> 'st VideoDecoder \<Rightarrow> log_record list \<Rightarrow> bool" where
  "left_loop self self' new \<longleftrightarrow>
     logger self' = logger self @ new \<and>
     ((new = [] \<or> new = [Debug ''Decoding queue depleted'']) \<and> exception self' = exception self \<or>
      (\<exists>e. new = [Logged_exception e] \<and>
           exception self' = (if isinstance_ValueError e then exception self else Some e)))"

text \<open>
  The state in which the loop starts pass \<open>n\<close> of its body, from the state \<open>(self, i, p)\<close>
  at a test of the loop condition, when no \<^verbatim>\<open>stop()\<close> is seen on the way: the object, the frame
  index and the previous image. \<open>None\<close> when an earlier pass leaves the loop.
\<close>

fun before_pass ::
  "('st work_item list \<Rightarrow> 'st work_item \<Rightarrow> exn option) \<Rightarrow> nat \<Rightarrow>
   'st VideoDecoder \<Rightarrow> int \<Rightarrow> Image option \<Rightarrow>
   ('st VideoDecoder \<times> int \<times> Image option) option" where
  "before_pass put_fault 0 self i p = Some (self, i, p)"
| "before_pass put_fault (Suc n) self i p =
     (case iteration put_fault self i p of
        Inl e \<Rightarrow> None
      | Inr (Next self' i' p') \<Rightarrow> before_pass put_fault n self' i' p'
      | Inr (Exit self') \<Rightarrow> None)"

text \<open>Objects to run the decoder on: frames of one pixel, on pipes of 9, 7, 8 and 4 bytes.\<close>

definition three_frames :: "nat VideoDecoder" where
  "three_frames =
     \<lparr>running = False, input_path = ''in.mp4'', input_width = 1, input_height = 1,
      processing_queue = [], processing_settings = 7, exception = None,
      decoder = \<lparr>stdout = \<lparr>pending = [1, 2, 3, 4, 5, 6, 7, 8, 9], ending = None, allocatable = 4096\<rparr>,
                 waited = False\<rparr>,
      logger = []\<rparr>"

definition two_frames_and_a_byte :: "nat VideoDecoder" where
  "two_frames_and_a_byte =
     \<lparr>running = False, input_path = ''in.mp4'', input_width = 1, input_height = 1,
      processing_queue = [], processing_settings = 7, exception = None,
      decoder = \<lparr>stdout = \<lparr>pending = [1, 2, 3, 4, 5, 6, 7], ending = None, allocatable = 4096\<rparr>,
                 waited = False\<rparr>,
      logger = []\<rparr>"

definition two_frames_and_two_bytes :: "nat VideoDecoder" where
  "two_frames_and_two_bytes =
     \<lparr>running = False, input_path = ''in.mp4'', input_width = 1, input_height = 1,
      processing_queue = [], processing_settings = 7, exception = None,
      decoder = \<lparr>stdout = \<lparr>pending = [9, 8, 7, 6, 5, 4, 3, 2], ending = None, allocatable = 4096\<rparr>,
                 waited = False\<rparr>,
      logger = []\<rparr>"

definition pipe_breaks :: "nat VideoDecoder" where
  "pipe_breaks =
     \<lparr>running = False, input_path = ''in.mp4'', input_width = 1, input_height = 1,
      processing_queue = [], processing_settings = 7, exception = None,
      decoder = \<lparr>stdout = \<lparr>pending = [1, 2, 3, 4], ending = Some (Exception ''OSError''), allocatable = 4096\<rparr>,
                 waited = False\<rparr>,
      logger = []\<rparr>"

section \<open>Properties\<close>

subsection \<open>Reading whole chunks\<close>

lemma chunk_positive: "0 < w \<Longrightarrow> 0 < h \<Longrightarrow> 0 < nat (3 * w * h)"
  by simp

lemma read_whole_chunk:
  assumes "length f = nat n" and "0 \<le> n" and "pending p = f @ rest"
    and "n \<le> maxsize" and "n \<le> allocatable p"
  shows "read p n = Inr (f, p\<lparr>pending := rest\<rparr>)"
  using assms by (simp add: read_def maxsize_def)

lemma read_tail:
  assumes "length (pending p) < nat n" and "ending p = None"
    and "n \<le> maxsize" and "n \<le> allocatable p"
  shows "read p n = Inr (pending p, p\<lparr>pending := []\<rparr>)"
  using assms by (simp add: read_def maxsize_def)

lemma Image_frombytes_chunk:
  assumes "0 < w" and "0 < h" and "length f = nat (3 * w * h)"
  shows "Image_frombytes (w, h) f = Inr (frame (w, h) f)"
  using assms by (simp add: Image_frombytes_def frame_def)

lemma Image_frombytes_short:
  assumes "0 < w" and "0 < h" and "length f < nat (3 * w * h)"
  shows "Image_frombytes (w, h) f = Inl (ValueError ''not enough image data'')"
  using assms by (simp add: Image_frombytes_def)

lemma loop_frames:
  assumes "0 < input_width self" and "0 < input_height self"
    and "\<forall>f \<in> set fs. length f = nat (3 * input_width self * input_height self)"
    and "length tail < nat (3 * input_width self * input_height self)"
    and "stdout (decoder self) = \<lparr>pending = concat fs @ tail, ending = None, allocatable = a\<rparr>"
    and "running self"
    and "3 * input_width self * input_height self \<le> maxsize"
    and "3 * input_width self * input_height self \<le> a"
  shows "loop (\<lambda>_ _. None) None k self i previous =
     Inr (self\<lparr>decoder := (decoder self)\<lparr>stdout := \<lparr>pending = [], ending = None, allocatable = a\<rparr>\<rparr>,
              processing_queue := processing_queue self @
                pairs (processing_settings self) i previous
                  (map (frame (input_width self, input_height self)) fs),
              logger := logger self @
                [if tail = [] then Debug ''Decoding queue depleted''
                 else Logged_exception (ValueError ''not enough image data'')]\<rparr>)"
  using assms
proof (induction fs arbitrary: self i previous k)
  case Nil
  let ?n = "3 * input_width self * input_height self"
  have rd: "read (stdout (decoder self)) ?n = Inr (tail, \<lparr>pending = [], ending = None, allocatable = a\<rparr>)"
    using Nil.prems read_tail [of "stdout (decoder self)" ?n] by simp
  show ?case
  proof (cases "tail = []")
    case True
    then show ?thesis
      using Nil.prems rd
      by (subst loop.simps) (simp add: iteration_def try_block_def)
  next
    case False
    have "Image_frombytes (input_width self, input_height self) tail =
            Inl (ValueError ''not enough image data'')"
      using Nil.prems by (simp add: Image_frombytes_short)
    then show ?thesis
      using Nil.prems rd False
      by (subst loop.simps) (simp add: iteration_def try_block_def)
  qed
next
  case (Cons f fs)
  let ?n = "3 * input_width self * input_height self"
  let ?sz = "(input_width self, input_height self)"
  let ?rest = "\<lparr>pending = concat fs @ tail, ending = None, allocatable = a\<rparr>"
  have len: "length f = nat ?n" and pos: "0 < nat ?n"
    using Cons.prems by simp_all
  then have ne: "f \<noteq> []" by auto
  have rd: "read (stdout (decoder self)) ?n = Inr (f, ?rest)"
    using Cons.prems len read_whole_chunk [of f ?n "stdout (decoder self)" "concat fs @ tail"]
    by simp
  have im: "Image_frombytes ?sz f = Inr (frame ?sz f)"
    using Cons.prems len by (simp add: Image_frombytes_chunk)
  show ?case
  proof (cases previous)
    case None
    let ?self = "self\<lparr>decoder := (decoder self)\<lparr>stdout := ?rest\<rparr>\<rparr>"
    have it: "iteration (\<lambda>_ _. None) self i previous = Inr (Next ?self (i + 1) (Some (frame ?sz f)))"
      using rd im ne None by (simp add: iteration_def try_block_def)
    have "loop (\<lambda>_ _. None) None (Suc k) ?self (i + 1) (Some (frame ?sz f)) =
      Inr (?self\<lparr>decoder := (decoder ?self)\<lparr>stdout := \<lparr>pending = [], ending = None, allocatable = a\<rparr>\<rparr>,
              processing_queue := processing_queue ?self @
                pairs (processing_settings ?self) (i + 1) (Some (frame ?sz f))
                  (map (frame (input_width ?self, input_height ?self)) fs),
              logger := logger ?self @
                [if tail = [] then Debug ''Decoding queue depleted''
                 else Logged_exception (ValueError ''not enough image data'')]\<rparr>)"
      using Cons.prems by (intro Cons.IH) simp_all
    then show ?thesis
      using it None Cons.prems(6) by (subst loop.simps) simp
  next
    case (Some p)
    let ?item = "(i, (p, frame ?sz f), processing_settings self)"
    let ?self = "self\<lparr>decoder := (decoder self)\<lparr>stdout := ?rest\<rparr>,
                      processing_queue := processing_queue self @ [?item]\<rparr>"
    have it: "iteration (\<lambda>_ _. None) self i previous = Inr (Next ?self (i + 1) (Some (frame ?sz f)))"
      using rd im ne Some by (simp add: iteration_def try_block_def put_def)
    have "loop (\<lambda>_ _. None) None (Suc k) ?self (i + 1) (Some (frame ?sz f)) =
      Inr (?self\<lparr>decoder := (decoder ?self)\<lparr>stdout := \<lparr>pending = [], ending = None, allocatable = a\<rparr>\<rparr>,
              processing_queue := processing_queue ?self @
                pairs (processing_settings ?self) (i + 1) (Some (frame ?sz f))
                  (map (frame (input_width ?self, input_height ?self)) fs),
              logger := logger ?self @
                [if tail = [] then Debug ''Decoding queue depleted''
                 else Logged_exception (ValueError ''not enough image data'')]\<rparr>)"
      using Cons.prems by (intro Cons.IH) simp_all
    then show ?thesis
      using it Some Cons.prems(6) by (subst loop.simps) simp
  qed
qed

lemma pairs_nth:
  "pairs st i (Some p) xs = map (\<lambda>k. (i + int k, ((p # xs) ! k, xs ! k), st)) [0..<length xs]"
proof (induction xs arbitrary: i p)
  case Nil
  show ?case by simp
next
  case (Cons x xs)
  have "[0..<length (x # xs)] = 0 # map Suc [0..<length xs]"
    by (simp add: upt_conv_Cons map_Suc_upt del: upt_Suc)
  then show ?case
    by (simp add: Cons.IH comp_def add.assoc del: upt_Suc)
qed

lemma pairs_from_start:
  "pairs st 0 None (map g fs) =
     map (\<lambda>k. (int k, (g (fs ! (k - 1)), g (fs ! k)), st)) [1..<length fs]"
proof (cases fs)
  case Nil
  then show ?thesis by simp
next
  case (Cons f fs')
  have "pairs st 0 None (map g fs) = pairs st 1 (Some (g f)) (map g fs')"
    using Cons by simp
  also have "\<dots> = map (\<lambda>k. (1 + int k, ((g f # map g fs') ! k, map g fs' ! k), st)) [0..<length fs']"
    by (simp add: pairs_nth)
  also have "\<dots> = map (\<lambda>k. (1 + int k, (g ((f # fs') ! k), g (fs' ! k)), st)) [0..<length fs']"
    by (rule map_cong) (auto simp: nth_Cons split: nat.splits)
  also have "\<dots> = map ((\<lambda>k. (int k, (g (fs ! (k - 1)), g (fs ! k)), st)) \<circ> Suc) [0..<length fs']"
    using Cons by (simp add: comp_def add.commute)
  also have "\<dots> = map (\<lambda>k. (int k, (g (fs ! (k - 1)), g (fs ! k)), st)) [1..<length fs]"
    using Cons by (simp add: map_Suc_upt [symmetric] del: upt_Suc)
  finally show ?thesis .
qed

lemma chunks_exist:
  assumes "0 < n" and "length xs mod n = 0"
  shows "\<exists>fs. xs = concat fs \<and> (\<forall>f \<in> set fs. length f = n)"
  using assms(2)
proof (induction "length xs" arbitrary: xs rule: less_induct)
  case less
  show ?case
  proof (cases "xs = []")
    case True
    then have "xs = concat [] \<and> (\<forall>f \<in> set ([] :: 'a list list). length f = n)" by simp
    then show ?thesis by blast
  next
    case False
    with less.prems assms(1) have long: "n \<le> length xs"
      by (metis length_greater_0_conv mod_less not_le_imp_less not_less_zero)
    have "length (drop n xs) < length xs"
      using long assms(1) by simp
    moreover have "length (drop n xs) mod n = 0"
      using less.prems le_mod_geq [OF long] by simp
    ultimately have "\<exists>fs. drop n xs = concat fs \<and> (\<forall>f \<in> set fs. length f = n)"
      by (rule less.hyps)
    then obtain fs where fs: "drop n xs = concat fs" "\<forall>f \<in> set fs. length f = n"
      by auto
    have "xs = concat (take n xs # fs) \<and> (\<forall>f \<in> set (take n xs # fs). length f = n)"
      using fs long by (simp add: min_def flip: fs(1))
    then show ?thesis by blast
  qed
qed

subsection \<open>Running on a pipe of whole frames, with or without a partial frame at its end\<close>

text \<open>
  The run on a healthy pipe and a healthy queue, with no call of \<^verbatim>\<open>stop()\<close>: the pipe holds the
  frames \<open>fs\<close>, each of the chunk size, and then \<open>tail\<close>, shorter than a chunk. The final
  object is given in full.
\<close>

lemma run_frames:
  assumes "0 < input_width self" and "0 < input_height self"
    and "\<forall>f \<in> set fs. length f = nat (3 * input_width self * input_height self)"
    and "length tail < nat (3 * input_width self * input_height self)"
    and "stdout (decoder self) = \<lparr>pending = concat fs @ tail, ending = None, allocatable = a\<rparr>"
    and "3 * input_width self * input_height self \<le> maxsize"
    and "3 * input_width self * input_height self \<le> a"
  shows "run (\<lambda>_ _. None) None self =
     Inr (self\<lparr>running := False,
              decoder := (decoder self)\<lparr>stdout := \<lparr>pending = [], ending = None, allocatable = a\<rparr>, waited := True\<rparr>,
              processing_queue := processing_queue self @
                map (\<lambda>k. (int k,
                          (frame (input_width self, input_height self) (fs ! (k - 1)),
                           frame (input_width self, input_height self) (fs ! k)),
                          processing_settings self))
                  [1..<length fs],
              logger := logger self @
                [if tail = [] then Debug ''Decoding queue depleted''
                 else Logged_exception (ValueError ''not enough image data''),
                 Debug ''Decoder thread exiting'']\<rparr>)"
proof -
  let ?self = "self\<lparr>running := True\<rparr>"
  have "loop (\<lambda>_ _. None) None 0 ?self 0 None =
     Inr (?self\<lparr>decoder := (decoder ?self)\<lparr>stdout := \<lparr>pending = [], ending = None, allocatable = a\<rparr>\<rparr>,
              processing_queue := processing_queue ?self @
                pairs (processing_settings ?self) 0 None
                  (map (frame (input_width ?self, input_height ?self)) fs),
              logger := logger ?self @
                [if tail = [] then Debug ''Decoding queue depleted''
                 else Logged_exception (ValueError ''not enough image data'')]\<rparr>)"
    using assms by (intro loop_frames) simp_all
  then show ?thesis
    by (simp add: run_def wait_def pairs_from_start)
qed

lemma loop_unfold:
  "loop put_fault owner_stop k self i p =
     (if running (if owner_stop = Some k then stop self else self)
      then
        (case iteration put_fault (if owner_stop = Some k then stop self else self) i p of
           Inl e \<Rightarrow> Inl e
         | Inr (Next self' i' p') \<Rightarrow> loop put_fault owner_stop (Suc k) self' i' p'
         | Inr (Exit self') \<Rightarrow> Inr self')
      else Inr (if owner_stop = Some k then stop self else self))"
  by (subst loop.simps) (simp only: Let_def)

lemma read_unreadable:
  assumes "0 < n" and "\<not> (n \<le> maxsize \<and> n \<le> allocatable p)"
  shows "read p n = Inl (Exception ''OverflowError'') \<or> read p n = Inl (Exception ''MemoryError'')"
  using assms by (auto simp: read_def maxsize_def)

text \<open>
  A chunk size that \<^verbatim>\<open>read\<close> cannot serve, because it is beyond the index range or beyond
  what can be allocated: the first read raises, its handler stores the exception, and the run
  is over with the queue as it was.
\<close>

lemma run_unreadable:
  assumes "0 < input_width self" and "0 < input_height self"
    and "\<not> (3 * input_width self * input_height self \<le> maxsize \<and>
            3 * input_width self * input_height self \<le> allocatable (stdout (decoder self)))"
  shows "\<exists>self'. run put_fault owner_stop self = Inr self' \<and>
           processing_queue self' = processing_queue self"
proof -
  let ?n = "3 * input_width self * input_height self"
  let ?start = "self\<lparr>running := True\<rparr>"
  define x where "x = (if owner_stop = Some 0 then stop ?start else ?start)"
  have x: "processing_queue x = processing_queue self" "decoder x = decoder self"
    "input_width x = input_width self" "input_height x = input_height self"
    by (simp_all add: x_def stop_def)
  have "0 < ?n"
    using assms(1,2) by simp
  then have "read (stdout (decoder self)) ?n = Inl (Exception ''OverflowError'') \<or>
             read (stdout (decoder self)) ?n = Inl (Exception ''MemoryError'')"
    using assms(3) by (rule read_unreadable)
  then obtain e where rd: "read (stdout (decoder x)) (3 * input_width x * input_height x) = Inl e"
    and e: "\<not> isinstance_ValueError e" "isinstance_Exception e"
    unfolding x by auto
  have "iteration put_fault x 0 None =
      Inr (Exit (x\<lparr>exception := Some e, logger := logger x @ [Logged_exception e]\<rparr>))"
    using rd e by (simp add: iteration_def try_block_def)
  then have "\<exists>s. loop put_fault owner_stop 0 ?start 0 None = Inr s \<and>
               processing_queue s = processing_queue self"
    using x by (subst loop_unfold) (simp add: x_def [symmetric])
  then show ?thesis
    by (auto simp: run_def)
qed

text \<open>
  Claim C1. For positive width and height and a pipe that delivers exactly the frames
  \<open>frames\<close>, each of \<open>3 * width * height\<close> bytes, and then ends, \<^verbatim>\<open>run\<close> returns, and it has
  appended to the queue exactly the items \<open>(k, (frame k - 1, frame k), processing_settings)\<close>
  for \<open>k = 1, ..., N - 1\<close> in this order, where \<open>N\<close> is the number of frames: \<open>N - 1\<close> items
  (none for \<open>N = 0\<close>), and none with index 0. With two frames or more, the chunk size is one
  that \<^verbatim>\<open>read\<close> can serve: within the index range, and a buffer of the size can be allocated.
\<close>

theorem run_enqueues_frame_pairs:
  assumes "0 < input_width self" and "0 < input_height self"
    and "\<forall>f \<in> set frames. length f = nat (3 * input_width self * input_height self)"
    and "pending (stdout (decoder self)) = concat frames"
    and "ending (stdout (decoder self)) = None"
    and "length frames \<le> 1 \<or>
         3 * input_width self * input_height self \<le> maxsize \<and>
         3 * input_width self * input_height self \<le> allocatable (stdout (decoder self))"
  shows "\<exists>self'. run (\<lambda>_ _. None) None self = Inr self' \<and>
           processing_queue self' = processing_queue self @
             map (\<lambda>k. (int k,
                       (frame (input_width self, input_height self) (frames ! (k - 1)),
                        frame (input_width self, input_height self) (frames ! k)),
                       processing_settings self))
               [1..<length frames] \<and>
           length (processing_queue self') = length (processing_queue self) + (length frames - 1)"
proof (cases "3 * input_width self * input_height self \<le> maxsize \<and>
              3 * input_width self * input_height self \<le> allocatable (stdout (decoder self))")
  case True
  have out: "stdout (decoder self) =
      \<lparr>pending = concat frames @ [], ending = None,
       allocatable = allocatable (stdout (decoder self))\<rparr>"
    using assms(4,5) by (cases "stdout (decoder self)") simp
  have short: "length ([] :: byte list) < nat (3 * input_width self * input_height self)"
    using assms(1,2) by simp
  from True have fits: "3 * input_width self * input_height self \<le> maxsize"
    "3 * input_width self * input_height self \<le> allocatable (stdout (decoder self))"
    by simp_all
  note r = run_frames [OF assms(1,2,3) short out fits]
  show ?thesis
    unfolding r by simp
next
  case False
  with assms(6) have few: "length frames \<le> 1" by blast
  then have "[1..<length frames] = []" by simp
  moreover from run_unreadable [OF assms(1,2) False]
  obtain self' where "run (\<lambda>_ _. None) None self = Inr self'"
    and "processing_queue self' = processing_queue self"
    by blast
  ultimately show ?thesis
    using few by simp
qed

lemma upt_1_3: "[1..<3] = [1, 2]"
  by (simp add: upt_rec)

theorem run_enqueues_frame_pairs_witness:
  "\<exists>self'. run (\<lambda>_ _. None) None three_frames = Inr self' \<and>
     processing_queue self' =
       [(1, (\<lparr>im_size = (1, 1), im_data = [1, 2, 3]\<rparr>, \<lparr>im_size = (1, 1), im_data = [4, 5, 6]\<rparr>), 7),
        (2, (\<lparr>im_size = (1, 1), im_data = [4, 5, 6]\<rparr>, \<lparr>im_size = (1, 1), im_data = [7, 8, 9]\<rparr>), 7)] \<and>
     length (processing_queue self') = 2"
proof -
  let ?frames = "[[1, 2, 3], [4, 5, 6], [7, 8, 9]] :: byte list list"
  have w: "0 < input_width three_frames" and h: "0 < input_height three_frames"
    by (simp_all add: three_frames_def)
  have len: "\<forall>f \<in> set ?frames.
      length f = nat (3 * input_width three_frames * input_height three_frames)"
    by (simp add: three_frames_def)
  have out: "pending (stdout (decoder three_frames)) = concat ?frames"
    and eof: "ending (stdout (decoder three_frames)) = None"
    by (simp_all add: three_frames_def)
  have fits: "length ?frames \<le> 1 \<or>
      3 * input_width three_frames * input_height three_frames \<le> maxsize \<and>
      3 * input_width three_frames * input_height three_frames
        \<le> allocatable (stdout (decoder three_frames))"
    by (simp add: three_frames_def maxsize_def)
  have q: "processing_queue three_frames = []" and st: "processing_settings three_frames = 7"
    and sz: "input_width three_frames = 1" "input_height three_frames = 1"
    by (simp_all add: three_frames_def)
  obtain self' where r: "run (\<lambda>_ _. None) None three_frames = Inr self'"
    and items: "processing_queue self' = processing_queue three_frames @
             map (\<lambda>k. (int k,
                       (frame (input_width three_frames, input_height three_frames) (?frames ! (k - 1)),
                        frame (input_width three_frames, input_height three_frames) (?frames ! k)),
                       processing_settings three_frames))
               [1..<length ?frames]"
    using run_enqueues_frame_pairs [OF w h len out eof fits] by blast
  have "length ?frames = 3" by simp
  then have "processing_queue self' =
       [(1, (\<lparr>im_size = (1, 1), im_data = [1, 2, 3]\<rparr>, \<lparr>im_size = (1, 1), im_data = [4, 5, 6]\<rparr>), 7),
        (2, (\<lparr>im_size = (1, 1), im_data = [4, 5, 6]\<rparr>, \<lparr>im_size = (1, 1), im_data = [7, 8, 9]\<rparr>), 7)]"
    unfolding items q st sz by (simp add: upt_1_3 frame_def)
  with r show ?thesis by simp
qed

text \<open>
  Claim C5. For positive width and height, a chunk size that \<^verbatim>\<open>read\<close> can serve (within the
  index range, and a buffer of the size can be allocated) and a pipe whose length is a
  multiple of the chunk size (the empty pipe included) and that ends with the end of file:
  \<^verbatim>\<open>run\<close> returns, the first empty read has ended the loop (the log says so), all of the pipe
  has been read, and the slot \<^verbatim>\<open>exception\<close>, empty at the start, is still empty.
\<close>

theorem run_depleted:
  assumes "0 < input_width self" and "0 < input_height self"
    and "3 * input_width self * input_height self \<le> maxsize"
    and "3 * input_width self * input_height self \<le> allocatable (stdout (decoder self))"
    and "length (pending (stdout (decoder self))) mod
           nat (3 * input_width self * input_height self) = 0"
    and "ending (stdout (decoder self)) = None"
    and "exception self = None"
  shows "\<exists>self'. run (\<lambda>_ _. None) None self = Inr self' \<and>
           exception self' = None \<and>
           logger self' = logger self @
             [Debug ''Decoding queue depleted'', Debug ''Decoder thread exiting''] \<and>
           pending (stdout (decoder self')) = [] \<and>
           waited (decoder self') \<and> \<not> running self'"
proof -
  let ?n = "nat (3 * input_width self * input_height self)"
  have pos: "0 < ?n"
    using assms(1,2) by simp
  have "\<exists>fs. pending (stdout (decoder self)) = concat fs \<and> (\<forall>f \<in> set fs. length f = ?n)"
    using pos assms(5) by (rule chunks_exist)
  then obtain fs where fs: "pending (stdout (decoder self)) = concat fs"
      and len: "\<forall>f \<in> set fs. length f = ?n"
    by auto
  have out: "stdout (decoder self) =
      \<lparr>pending = concat fs @ [], ending = None,
       allocatable = allocatable (stdout (decoder self))\<rparr>"
    using fs assms(6) by (cases "stdout (decoder self)") simp
  have short: "length ([] :: byte list) < ?n"
    using pos by simp
  note r = run_frames [OF assms(1,2) len short out assms(3,4)]
  show ?thesis
    unfolding r using assms(7) by simp
qed

theorem run_depleted_witness:
  "\<exists>self'. run (\<lambda>_ _. None) None three_frames = Inr self' \<and>
     exception self' = None \<and>
     logger self' = logger three_frames @
       [Debug ''Decoding queue depleted'', Debug ''Decoder thread exiting''] \<and>
     pending (stdout (decoder self')) = [] \<and>
     waited (decoder self') \<and> \<not> running self'"
proof -
  have w: "0 < input_width three_frames" and h: "0 < input_height three_frames"
    by (simp_all add: three_frames_def)
  have index: "3 * input_width three_frames * input_height three_frames \<le> maxsize"
    and memory: "3 * input_width three_frames * input_height three_frames
      \<le> allocatable (stdout (decoder three_frames))"
    by (simp_all add: three_frames_def maxsize_def)
  have "length (pending (stdout (decoder three_frames))) = 9"
    and "nat (3 * input_width three_frames * input_height three_frames) = 3"
    by (simp_all add: three_frames_def)
  then have len: "length (pending (stdout (decoder three_frames))) mod
           nat (3 * input_width three_frames * input_height three_frames) = 0"
    by simp
  have eof: "ending (stdout (decoder three_frames)) = None"
    and slot: "exception three_frames = None"
    by (simp_all add: three_frames_def)
  show ?thesis
    by (rule run_depleted [OF w h index memory len eof slot])
qed

text \<open>
  Beyond these sizes the read itself fails: for a width of \<open>2 ^ 62\<close> the size is outside the
  index range, \<^verbatim>\<open>read\<close> raises \<^verbatim>\<open>OverflowError\<close> on the empty pipe, and the handler on lines
  127 to 130 stores it.
\<close>

lemma run_oversized_chunk:
  "run (\<lambda>_ _. None) None
     \<lparr>running = False, input_path = ''in.mp4'', input_width = 2 ^ 62, input_height = 1,
      processing_queue = [], processing_settings = (7 :: nat), exception = None,
      decoder = \<lparr>stdout = \<lparr>pending = [], ending = None, allocatable = 4096\<rparr>, waited = False\<rparr>,
      logger = []\<rparr> =
   Inr \<lparr>running = False, input_path = ''in.mp4'', input_width = 2 ^ 62, input_height = 1,
        processing_queue = [], processing_settings = 7,
        exception = Some (Exception ''OverflowError''),
        decoder = \<lparr>stdout = \<lparr>pending = [], ending = None, allocatable = 4096\<rparr>, waited = True\<rparr>,
        logger = [Logged_exception (Exception ''OverflowError''),
                  Debug ''Decoder thread exiting'']\<rparr>"
  by code_simp

text \<open>
  Claim C2, as amended. For positive width and height, a chunk size that \<^verbatim>\<open>read\<close> can serve
  and a pipe that delivers whole frames and then a partial frame (\<open>tail\<close>, not empty, shorter
  than a chunk) before it ends: \<^verbatim>\<open>run\<close> returns, the conversion of the partial chunk has
  raised \<^verbatim>\<open>ValueError\<close>, which the handler on lines 122 to 124 logs before it leaves the loop;
  nothing is read after it, the queue holds the pairs of the whole frames only, and the slot
  \<^verbatim>\<open>exception\<close> is as it was: the handler does not store the exception.
\<close>

theorem run_partial_frame:
  assumes "0 < input_width self" and "0 < input_height self"
    and "3 * input_width self * input_height self \<le> maxsize"
    and "3 * input_width self * input_height self \<le> allocatable (stdout (decoder self))"
    and "\<forall>f \<in> set frames. length f = nat (3 * input_width self * input_height self)"
    and "tail \<noteq> []"
    and "length tail < nat (3 * input_width self * input_height self)"
    and "pending (stdout (decoder self)) = concat frames @ tail"
    and "ending (stdout (decoder self)) = None"
  shows "\<exists>self'. run (\<lambda>_ _. None) None self = Inr self' \<and>
           exception self' = exception self \<and>
           logger self' = logger self @
             [Logged_exception (ValueError ''not enough image data''),
              Debug ''Decoder thread exiting''] \<and>
           processing_queue self' = processing_queue self @
             map (\<lambda>k. (int k,
                       (frame (input_width self, input_height self) (frames ! (k - 1)),
                        frame (input_width self, input_height self) (frames ! k)),
                       processing_settings self))
               [1..<length frames] \<and>
           pending (stdout (decoder self')) = [] \<and>
           waited (decoder self') \<and> \<not> running self'"
proof -
  have out: "stdout (decoder self) =
      \<lparr>pending = concat frames @ tail, ending = None,
       allocatable = allocatable (stdout (decoder self))\<rparr>"
    using assms(8,9) by (cases "stdout (decoder self)") simp
  note r = run_frames [OF assms(1,2,5,7) out assms(3,4)]
  show ?thesis
    unfolding r using assms(6) by simp
qed

text \<open>
  Claim C2 as stated has the error captured in the slot \<^verbatim>\<open>exception\<close>. On a pipe of two frames
  of one pixel and one more byte, the slot is \<open>None\<close> after the run.
\<close>

theorem run_partial_frame_counterexample:
  "run (\<lambda>_ _. None) None two_frames_and_a_byte =
     Inr \<lparr>running = False, input_path = ''in.mp4'', input_width = 1, input_height = 1,
          processing_queue =
            [(1, (\<lparr>im_size = (1, 1), im_data = [1, 2, 3]\<rparr>,
                  \<lparr>im_size = (1, 1), im_data = [4, 5, 6]\<rparr>), 7)],
          processing_settings = 7,
          exception = None,
          decoder = \<lparr>stdout = \<lparr>pending = [], ending = None, allocatable = 4096\<rparr>, waited = True\<rparr>,
          logger = [Logged_exception (ValueError ''not enough image data''),
                    Debug ''Decoder thread exiting'']\<rparr>"
  by code_simp

theorem run_partial_frame_witness:
  "\<exists>self'. run (\<lambda>_ _. None) None two_frames_and_two_bytes = Inr self' \<and>
     exception self' = None \<and>
     logger self' =
       [Logged_exception (ValueError ''not enough image data''), Debug ''Decoder thread exiting''] \<and>
     processing_queue self' =
       [(1, (\<lparr>im_size = (1, 1), im_data = [9, 8, 7]\<rparr>, \<lparr>im_size = (1, 1), im_data = [6, 5, 4]\<rparr>), 7)] \<and>
     pending (stdout (decoder self')) = [] \<and>
     waited (decoder self') \<and> \<not> running self'"
proof -
  let ?self = two_frames_and_two_bytes
  let ?frames = "[[9, 8, 7], [6, 5, 4]] :: byte list list"
  let ?tail = "[3, 2] :: byte list"
  have w: "0 < input_width ?self" and h: "0 < input_height ?self"
    by (simp_all add: two_frames_and_two_bytes_def)
  have index: "3 * input_width ?self * input_height ?self \<le> maxsize"
    and memory: "3 * input_width ?self * input_height ?self \<le> allocatable (stdout (decoder ?self))"
    by (simp_all add: two_frames_and_two_bytes_def maxsize_def)
  have n: "nat (3 * input_width ?self * input_height ?self) = 3"
    by (simp add: two_frames_and_two_bytes_def)
  have len: "\<forall>f \<in> set ?frames. length f = nat (3 * input_width ?self * input_height ?self)"
    unfolding n by simp
  have ne: "?tail \<noteq> []" by simp
  have short: "length ?tail < nat (3 * input_width ?self * input_height ?self)"
    unfolding n by simp
  have out: "pending (stdout (decoder ?self)) = concat ?frames @ ?tail"
    and eof: "ending (stdout (decoder ?self)) = None"
    by (simp_all add: two_frames_and_two_bytes_def)
  have fields: "processing_queue ?self = []" "processing_settings ?self = 7"
    "input_width ?self = 1" "input_height ?self = 1" "exception ?self = None" "logger ?self = []"
    by (simp_all add: two_frames_and_two_bytes_def)
  have idx: "[1..<length ?frames] = [1]"
    by (simp add: upt_rec)
  show ?thesis
    using run_partial_frame [OF w h index memory len ne short out eof]
    unfolding fields idx by (simp add: frame_def)
qed

subsection \<open>The log level passed to the process\<close>

lemma loglevel_table:
  "loglevel [''LOGURU_LEVEL'' \<mapsto> ''TRACE''] = Some ''trace''"
  "loglevel [''LOGURU_LEVEL'' \<mapsto> ''DEBUG''] = Some ''debug''"
  "loglevel [''LOGURU_LEVEL'' \<mapsto> ''INFO''] = Some ''info''"
  "loglevel [''LOGURU_LEVEL'' \<mapsto> ''SUCCESS''] = Some ''info''"
  "loglevel [''LOGURU_LEVEL'' \<mapsto> ''WARNING''] = Some ''warning''"
  "loglevel [''LOGURU_LEVEL'' \<mapsto> ''ERROR''] = Some ''error''"
  "loglevel [''LOGURU_LEVEL'' \<mapsto> ''CRITICAL''] = Some ''fatal''"
  "loglevel Map.empty = Some ''info''"
  by code_simp+

text \<open>
  Claim C3 has every level outside the table mapped to \<open>info\<close>. The lookup on line 67 is
  \<^verbatim>\<open>dict.get\<close> without a default: for \<^verbatim>\<open>LOGURU_LEVEL=NOTICE\<close> the value passed after
  \<^verbatim>\<open>-loglevel\<close> is \<^verbatim>\<open>None\<close>, no log level at all.
\<close>

theorem loglevel_unrecognized:
  "loglevel [''LOGURU_LEVEL'' \<mapsto> ''NOTICE''] = None \<and>
   global_args (compile [''LOGURU_LEVEL'' \<mapsto> ''NOTICE''] ''in.mp4'' (30 :: nat)) =
     [Some ''-hide_banner'', Some ''-nostats'', Some ''-loglevel'', None]"
  by code_simp

subsection \<open>Launching the process\<close>

text \<open>
  Claim C8. If the process cannot be started, the exception of the launch leaves
  \<^verbatim>\<open>__init__\<close>: the caller gets the exception and no object, so there is nothing to run, no
  slot \<^verbatim>\<open>exception\<close> to read, and the queue handed in has not been touched.
\<close>

theorem init_launch_error:
  assumes "subprocess_Popen (compile environ path frame_rate) = Inl e"
  shows "VideoDecoder_init subprocess_Popen environ log path width height frame_rate queue settings
           = Inl e"
  using assms by (simp add: VideoDecoder_init_def)

theorem init_launch_error_witness:
  "VideoDecoder_init (\<lambda>c :: nat command. Inl (Exception ''FileNotFoundError'')) Map.empty []
     ''in.mp4'' 1 1 30 ([] :: nat work_item list) 7
   = Inl (Exception ''FileNotFoundError'')"
  by (rule init_launch_error) simp

subsection \<open>Frames\<close>

text \<open>
  Claim C9. A chunk of exactly \<open>3 * width * height\<close> bytes, for positive width and height, is
  accepted by the frame construction, and the bytes of the frame are the chunk.
\<close>

theorem frombytes_tobytes:
  assumes "0 < w" and "0 < h" and "length chunk = nat (3 * w * h)"
  shows "\<exists>img. Image_frombytes (w, h) chunk = Inr img \<and> Image_tobytes img = chunk"
  using assms by (simp add: Image_frombytes_def Image_tobytes_def)

theorem frombytes_tobytes_witness:
  "\<exists>img. Image_frombytes (2, 1) [1, 2, 3, 4, 5, 6] = Inr img \<and>
     Image_tobytes img = [1, 2, 3, 4, 5, 6]"
  by (rule frombytes_tobytes) simp_all

subsection \<open>A stop before the run\<close>


subsection \<open>One pass through the body of the loop\<close>

lemma try_block_Normal:
  assumes "try_block put_fault self i p = Normal self' i' p'"
  shows "logger self' = logger self \<and> exception self' = exception self \<and>
         running self' = running self \<and>
         ending (stdout (decoder self')) = ending (stdout (decoder self)) \<and>
         (\<exists>new. processing_queue self' = processing_queue self @ new \<and> length new \<le> 1)"
  using assms
  by (auto simp: try_block_def Let_def put_def read_def
      split: sum.splits prod.splits if_splits option.splits)

lemma try_block_Broke:
  assumes "try_block put_fault self i p = Broke self'"
  shows "logger self' = logger self @ [Debug ''Decoding queue depleted''] \<and>
         exception self' = exception self \<and> processing_queue self' = processing_queue self"
  using assms
  by (auto simp: try_block_def Let_def put_def
      split: sum.splits prod.splits if_splits option.splits)

lemma try_block_Raised:
  assumes "try_block put_fault self i p = Raised e self'"
  shows "logger self' = logger self \<and> exception self' = exception self \<and>
         processing_queue self' = processing_queue self \<and>
         (isinstance_Exception e \<or> ending (stdout (decoder self)) = Some e \<or>
          (\<exists>q item. put_fault q item = Some e))"
  using assms
  by (auto simp: try_block_def Let_def put_def read_def Image_frombytes_def
      split: sum.splits prod.splits if_splits option.splits)

lemma iteration_Next:
  assumes "iteration put_fault self i p = Inr (Next self' i' p')"
  shows "logger self' = logger self \<and> exception self' = exception self \<and>
         running self' = running self \<and>
         ending (stdout (decoder self')) = ending (stdout (decoder self)) \<and>
         (\<exists>new. processing_queue self' = processing_queue self @ new \<and> length new \<le> 1)"
proof -
  from assms have "try_block put_fault self i p = Normal self' i' p'"
    by (auto simp: iteration_def split: completion.splits if_splits)
  then show ?thesis by (rule try_block_Normal)
qed

lemma iteration_Exit:
  assumes "iteration put_fault self i p = Inr (Exit self')"
  shows "(\<exists>new. left_loop self self' new) \<and> processing_queue self' = processing_queue self"
proof (cases "try_block put_fault self i p")
  case (Normal s j q)
  with assms show ?thesis by (simp add: iteration_def)
next
  case (Broke s)
  with assms have "self' = s" by (simp add: iteration_def)
  with try_block_Broke [OF Broke]
  have "left_loop self self' [Debug ''Decoding queue depleted'']"
    and "processing_queue self' = processing_queue self"
    by (simp_all add: left_loop_def)
  then show ?thesis by blast
next
  case (Raised e s)
  note tb = try_block_Raised [OF Raised]
  show ?thesis
  proof (cases "isinstance_ValueError e")
    case True
    with assms Raised have "self' = s\<lparr>logger := logger s @ [Logged_exception e]\<rparr>"
      by (simp add: iteration_def)
    with tb True have "left_loop self self' [Logged_exception e]"
      and "processing_queue self' = processing_queue self"
      by (simp_all add: left_loop_def)
    then show ?thesis by blast
  next
    case False
    with assms Raised have ex: "isinstance_Exception e"
      and "self' = s\<lparr>exception := Some e, logger := logger s @ [Logged_exception e]\<rparr>"
      by (auto simp: iteration_def split: if_splits)
    with tb False have "left_loop self self' [Logged_exception e]"
      and "processing_queue self' = processing_queue self"
      by (simp_all add: left_loop_def)
    then show ?thesis by blast
  qed
qed

lemma iteration_Inl:
  assumes "iteration put_fault self i p = Inl e"
  shows "\<not> isinstance_Exception e \<and>
         (ending (stdout (decoder self)) = Some e \<or> (\<exists>q item. put_fault q item = Some e))"
proof (cases "try_block put_fault self i p")
  case (Normal s j q)
  with assms show ?thesis by (simp add: iteration_def)
next
  case (Broke s)
  with assms show ?thesis by (simp add: iteration_def)
next
  case (Raised e' s)
  with assms have "e' = e" and "\<not> isinstance_ValueError e" and "\<not> isinstance_Exception e"
    by (auto simp: iteration_def split: if_splits)
  with try_block_Raised [OF Raised] show ?thesis by simp
qed

subsection \<open>Every way out of the loop\<close>

lemma left_loop_from:
  assumes "logger a = logger b" and "exception a = exception b"
  shows "left_loop a s new = left_loop b s new"
  unfolding left_loop_def assms by (rule refl)

lemma loop_exits:
  "case loop put_fault owner_stop k self i p of
     Inr self' \<Rightarrow> \<exists>new. left_loop self self' new
   | Inl e \<Rightarrow> \<not> isinstance_Exception e \<and>
       (ending (stdout (decoder self)) = Some e \<or> (\<exists>q item. put_fault q item = Some e))"
proof (induction put_fault owner_stop k self i p rule: loop.induct)
  case (1 put_fault owner_stop k self i p)
  define x where "x = (if owner_stop = Some k then stop self else self)"
  have x: "logger x = logger self" "exception x = exception self" "decoder x = decoder self"
    by (simp_all add: x_def stop_def)
  have unfold: "loop put_fault owner_stop k self i p =
     (if running x
      then (case iteration put_fault x i p of
              Inl e \<Rightarrow> Inl e
            | Inr (Next self' i' p') \<Rightarrow> loop put_fault owner_stop (Suc k) self' i' p'
            | Inr (Exit self') \<Rightarrow> Inr self')
      else Inr x)"
    unfolding x_def by (rule loop_unfold)
  show ?case
  proof (cases "running x")
    case False
    then have "loop put_fault owner_stop k self i p = Inr x"
      by (simp add: unfold)
    moreover have "left_loop self x []"
      using x by (simp add: left_loop_def)
    ultimately show ?thesis by auto
  next
    case True
    show ?thesis
    proof (cases "iteration put_fault x i p")
      case (Inl e)
      then have "loop put_fault owner_stop k self i p = Inl e"
        using True by (simp add: unfold)
      then show ?thesis
        using iteration_Inl [OF Inl] x by simp
    next
      case (Inr r)
      show ?thesis
      proof (cases r)
        case (Exit self')
        then have "loop put_fault owner_stop k self i p = Inr self'"
          using True Inr by (simp add: unfold)
        moreover from iteration_Exit Inr Exit obtain new where "left_loop x self' new"
          by blast
        then have "left_loop self self' new"
          using x by (simp add: left_loop_from [of x self])
        ultimately show ?thesis by auto
      next
        case (Next self' i' p')
        have eq: "loop put_fault owner_stop k self i p =
                    loop put_fault owner_stop (Suc k) self' i' p'"
          using True Inr Next by (simp add: unfold)
        have same: "logger self' = logger self" "exception self' = exception self"
            "ending (stdout (decoder self')) = ending (stdout (decoder self))"
          using iteration_Next [of put_fault x i p self' i' p'] Inr Next x by simp_all
        have IH: "case loop put_fault owner_stop (Suc k) self' i' p' of
             Inr s \<Rightarrow> \<exists>new. left_loop self' s new
           | Inl e \<Rightarrow> \<not> isinstance_Exception e \<and>
               (ending (stdout (decoder self')) = Some e \<or> (\<exists>q item. put_fault q item = Some e))"
          using x_def True Inr Next by (rule "1.IH")
        show ?thesis
        proof (cases "loop put_fault owner_stop (Suc k) self' i' p'")
          case (Inl e)
          with IH same eq show ?thesis by simp
        next
          case (Inr s)
          with IH obtain new where "left_loop self' s new" by auto
          then have "left_loop self s new"
            using same by (simp add: left_loop_from [of self' self])
          with Inr eq show ?thesis by auto
        qed
      qed
    qed
  qed
qed

lemma run_exits:
  "case run put_fault owner_stop self of
     Inr self' \<Rightarrow>
       waited (decoder self') \<and> \<not> running self' \<and>
       (\<exists>new. logger self' = logger self @ new @ [Debug ''Decoder thread exiting''] \<and>
          ((new = [] \<or> new = [Debug ''Decoding queue depleted'']) \<and>
             exception self' = exception self \<or>
           (\<exists>e. new = [Logged_exception e] \<and>
                exception self' = (if isinstance_ValueError e then exception self else Some e))))
   | Inl e \<Rightarrow> \<not> isinstance_Exception e \<and>
       (ending (stdout (decoder self)) = Some e \<or> (\<exists>q item. put_fault q item = Some e))"
proof (cases "loop put_fault owner_stop 0 (self\<lparr>running := True\<rparr>) 0 None")
  case (Inl e)
  then have "run put_fault owner_stop self = Inl e"
    by (simp add: run_def)
  with loop_exits [where put_fault = put_fault and owner_stop = owner_stop and k = 0
      and self = "self\<lparr>running := True\<rparr>" and i = 0 and p = None] Inl
  show ?thesis by simp
next
  case (Inr s)
  then have r: "run put_fault owner_stop self =
      Inr (s\<lparr>decoder := wait (decoder s),
             logger := logger s @ [Debug ''Decoder thread exiting''],
             running := False\<rparr>)"
    by (simp add: run_def)
  from loop_exits [where put_fault = put_fault and owner_stop = owner_stop and k = 0
      and self = "self\<lparr>running := True\<rparr>" and i = 0 and p = None] Inr
  obtain new where "left_loop (self\<lparr>running := True\<rparr>) s new"
    by auto
  then have new: "left_loop self s new"
    by (simp add: left_loop_from [of "self\<lparr>running := True\<rparr>" self])
  show ?thesis
    unfolding r using new by (auto simp: wait_def left_loop_def)
qed

subsection \<open>Failures inside the loop\<close>

lemma try_block_raises:
  "try_block put_fault self i p = Raised e s \<longleftrightarrow>
     read (stdout (decoder self)) (3 * input_width self * input_height self) = Inl e \<and> s = self \<or>
     (\<exists>buffer rest.
        read (stdout (decoder self)) (3 * input_width self * input_height self) = Inr (buffer, rest) \<and>
        buffer \<noteq> [] \<and> s = self\<lparr>decoder := (decoder self)\<lparr>stdout := rest\<rparr>\<rparr> \<and>
        (Image_frombytes (input_width self, input_height self) buffer = Inl e \<or>
         (\<exists>img previous.
            Image_frombytes (input_width self, input_height self) buffer = Inr img \<and>
            p = Some previous \<and>
            put put_fault (processing_queue self)
              (i, (previous, img), processing_settings self) = Inl e)))"
  by (auto simp: try_block_def Let_def split: sum.splits prod.splits option.splits)

lemma loop_before_pass:
  assumes "before_pass put_fault n self i p = Some (x, i', p')"
    and "running self"
    and "\<forall>m. owner_stop = Some m \<longrightarrow> k + n < m"
  shows "loop put_fault owner_stop k self i p = loop put_fault owner_stop (k + n) x i' p' \<and>
         running x \<and> exception x = exception self"
  using assms
proof (induction n arbitrary: k self i p)
  case 0
  then show ?case by simp
next
  case (Suc n)
  from Suc.prems(1) obtain s1 i1 p1 where it: "iteration put_fault self i p = Inr (Next s1 i1 p1)"
    and rest: "before_pass put_fault n s1 i1 p1 = Some (x, i', p')"
    by (auto split: sum.splits step.splits)
  have same: "running s1 = running self" "exception s1 = exception self"
    using iteration_Next [OF it] by simp_all
  have "owner_stop \<noteq> Some k"
    using Suc.prems(3) by auto
  then have "loop put_fault owner_stop k self i p = loop put_fault owner_stop (Suc k) s1 i1 p1"
    using it Suc.prems(2) by (subst loop_unfold) simp
  moreover have "\<forall>m. owner_stop = Some m \<longrightarrow> Suc k + n < m"
    using Suc.prems(3) by simp
  with rest same Suc.prems(2)
  have "loop put_fault owner_stop (Suc k) s1 i1 p1 = loop put_fault owner_stop (Suc k + n) x i' p' \<and>
        running x \<and> exception x = exception s1"
    by (intro Suc.IH) simp_all
  ultimately show ?case
    using same by simp
qed

text \<open>
  Claim C4, as amended. Let the loop get as far as pass \<open>n\<close> of its body (no earlier pass has
  left the loop, and no \<^verbatim>\<open>stop()\<close> has been seen), and let the \<^verbatim>\<open>try\<close> block of this pass
  raise an instance \<open>e\<close> of \<^verbatim>\<open>Exception\<close>, when the object is \<open>s\<close>: in the read, in the frame
  conversion or in the put (lemma \<open>try_block_raises\<close>). Then no exception leaves \<^verbatim>\<open>run\<close>: it
  returns, with nothing read or put after the failure, the failure logged, the process waited
  for and the flag cleared. If \<open>e\<close> is no \<^verbatim>\<open>ValueError\<close>, it is in the slot \<^verbatim>\<open>exception\<close>; a
  \<^verbatim>\<open>ValueError\<close>, as the frame conversion raises it on a short buffer, is logged only, and the
  slot is as it was at the start of the run.
\<close>

theorem run_captures_failures:
  assumes "before_pass put_fault n (self\<lparr>running := True\<rparr>) 0 None = Some (x, i, p)"
    and "\<forall>m. owner_stop = Some m \<longrightarrow> n < m"
    and "try_block put_fault x i p = Raised e s"
    and "isinstance_Exception e"
  shows "run put_fault owner_stop self =
           Inr (s\<lparr>exception := (if isinstance_ValueError e then exception self else Some e),
                  logger := logger s @ [Logged_exception e, Debug ''Decoder thread exiting''],
                  decoder := wait (decoder s),
                  running := False\<rparr>)"
proof -
  let ?start = "self\<lparr>running := True\<rparr>"
  have "\<forall>m. owner_stop = Some m \<longrightarrow> 0 + n < m"
    using assms(2) by simp
  with assms(1)
  have "loop put_fault owner_stop 0 ?start 0 None = loop put_fault owner_stop (0 + n) x i p \<and>
        running x \<and> exception x = exception ?start"
    by (intro loop_before_pass) simp_all
  then have reach: "loop put_fault owner_stop 0 ?start 0 None = loop put_fault owner_stop n x i p"
    and x: "running x" "exception x = exception self"
    by simp_all
  have slot: "exception s = exception self"
    using try_block_Raised [OF assms(3)] x by simp
  have "iteration put_fault x i p =
      Inr (Exit (s\<lparr>exception := (if isinstance_ValueError e then exception self else Some e),
                   logger := logger s @ [Logged_exception e]\<rparr>))"
  proof (cases "isinstance_ValueError e")
    case True
    have "s\<lparr>exception := exception s\<rparr> = s" by simp
    with True assms(3) slot show ?thesis
      by (simp add: iteration_def)
  next
    case False
    with assms(3,4) show ?thesis
      by (simp add: iteration_def)
  qed
  moreover have "owner_stop \<noteq> Some n"
    using assms(2) by auto
  ultimately have "loop put_fault owner_stop n x i p =
      Inr (s\<lparr>exception := (if isinstance_ValueError e then exception self else Some e),
             logger := logger s @ [Logged_exception e]\<rparr>)"
    using x(1) by (subst loop_unfold) simp
  with reach show ?thesis
    by (simp add: run_def)
qed

theorem run_captures_failures_witness:
  "run (\<lambda>_ _. None) None pipe_breaks =
     Inr \<lparr>running = False, input_path = ''in.mp4'', input_width = 1, input_height = 1,
          processing_queue = [], processing_settings = 7,
          exception = Some (Exception ''OSError''),
          decoder = \<lparr>stdout = \<lparr>pending = [4], ending = Some (Exception ''OSError''),
                                allocatable = 4096\<rparr>,
                     waited = True\<rparr>,
          logger = [Logged_exception (Exception ''OSError''), Debug ''Decoder thread exiting'']\<rparr>"
proof -
  let ?x = "\<lparr>running = True, input_path = ''in.mp4'', input_width = 1, input_height = 1,
      processing_queue = [], processing_settings = 7 :: nat, exception = None,
      decoder = \<lparr>stdout = \<lparr>pending = [4], ending = Some (Exception ''OSError''),
                            allocatable = 4096\<rparr>,
                 waited = False\<rparr>,
      logger = []\<rparr>"
  let ?p = "Some \<lparr>im_size = (1, 1), im_data = [1, 2, 3]\<rparr>"
  have reach: "before_pass (\<lambda>_ _. None) 1 (pipe_breaks\<lparr>running := True\<rparr>) 0 None = Some (?x, 1, ?p)"
    by code_simp
  have nostop: "\<forall>m. (None :: nat option) = Some m \<longrightarrow> 1 < m"
    by simp
  have fault: "try_block (\<lambda>_ _. None) ?x 1 ?p = Raised (Exception ''OSError'') ?x"
    by code_simp
  have kind: "isinstance_Exception (Exception ''OSError'')"
    by simp
  show ?thesis
    using run_captures_failures [OF reach nostop fault kind]
    by (simp add: pipe_breaks_def wait_def)
qed

text \<open>
  Claim C4 as stated has every failure inside the loop captured in the slot. On a pipe of a
  single byte, for frames of one pixel, the frame conversion fails, the failure is logged, and
  the slot is \<open>None\<close> after the run.
\<close>

theorem run_captures_failures_counterexample:
  "run (\<lambda>_ _. None) None
     \<lparr>running = False, input_path = ''in.mp4'', input_width = 1, input_height = 1,
      processing_queue = [], processing_settings = (7 :: nat), exception = None,
      decoder = \<lparr>stdout = \<lparr>pending = [255], ending = None, allocatable = 4096\<rparr>, waited = False\<rparr>,
      logger = []\<rparr> =
   Inr \<lparr>running = False, input_path = ''in.mp4'', input_width = 1, input_height = 1,
        processing_queue = [], processing_settings = 7, exception = None,
        decoder = \<lparr>stdout = \<lparr>pending = [], ending = None, allocatable = 4096\<rparr>, waited = True\<rparr>,
        logger = [Logged_exception (ValueError ''not enough image data''),
                  Debug ''Decoder thread exiting'']\<rparr>"
  by code_simp

subsection \<open>The process is waited for\<close>

text \<open>
  Claim C7. However the loop is left (by the test of the flag after a \<^verbatim>\<open>stop()\<close>, by the
  empty read, by a \<^verbatim>\<open>ValueError\<close> or by another exception that its handler stores), \<^verbatim>\<open>run\<close>
  returns with the process waited for and the flag cleared. The only other outcome is an
  exception, raised by the pipe or the queue, that is no instance of \<^verbatim>\<open>Exception\<close>: no
  handler catches it, and it leaves \<^verbatim>\<open>run\<close>.
\<close>

theorem run_waits_for_process:
  "case run put_fault owner_stop self of
     Inr self' \<Rightarrow> waited (decoder self') \<and> \<not> running self'
   | Inl e \<Rightarrow> \<not> isinstance_Exception e \<and>
       (ending (stdout (decoder self)) = Some e \<or> (\<exists>q item. put_fault q item = Some e))"
  using run_exits [where put_fault = put_fault and owner_stop = owner_stop and self = self]
  by (cases "run put_fault owner_stop self") simp_all

theorem run_waits_for_process_witness:
  "\<exists>self'. run (\<lambda>_ _. None) (Some 1) pipe_breaks = Inr self' \<and>
     waited (decoder self') \<and> \<not> running self'"
proof (cases "run (\<lambda>_ _. None) (Some 1) pipe_breaks")
  case (Inl e)
  have "ending (stdout (decoder pipe_breaks)) = Some (Exception ''OSError'')"
    by (simp add: pipe_breaks_def)
  with Inl run_waits_for_process [where put_fault = "\<lambda>_ _. None" and owner_stop = "Some 1"
      and self = pipe_breaks]
  show ?thesis by auto
next
  case (Inr self')
  with run_waits_for_process [where put_fault = "\<lambda>_ _. None" and owner_stop = "Some 1"
      and self = pipe_breaks]
  show ?thesis by simp
qed

subsection \<open>A stop while the loop runs\<close>

text \<open>
  The body of the loop neither reads nor writes the flag: a pass gives the same result,
  whatever the flag is, and leaves the flag as it finds it. So a \<^verbatim>\<open>stop()\<close> that arrives in the
  middle of a pass has the effect of one that arrives at its end.
\<close>

lemma try_block_flag:
  "try_block put_fault (self\<lparr>running := b\<rparr>) i p =
     (case try_block put_fault self i p of
        Normal self' i' p' \<Rightarrow> Normal (self'\<lparr>running := b\<rparr>) i' p'
      | Broke self' \<Rightarrow> Broke (self'\<lparr>running := b\<rparr>)
      | Raised e self' \<Rightarrow> Raised e (self'\<lparr>running := b\<rparr>))"
  by (simp add: try_block_def Let_def split: sum.splits prod.splits option.splits)

lemma iteration_flag:
  "iteration put_fault (self\<lparr>running := b\<rparr>) i p =
     (case iteration put_fault self i p of
        Inl e \<Rightarrow> Inl e
      | Inr (Next self' i' p') \<Rightarrow> Inr (Next (self'\<lparr>running := b\<rparr>) i' p')
      | Inr (Exit self') \<Rightarrow> Inr (Exit (self'\<lparr>running := b\<rparr>)))"
  by (auto simp: iteration_def try_block_flag split: completion.splits)

lemma loop_stop_now:
  "loop put_fault (Some k) k self i p = Inr (stop self)"
  by (subst loop_unfold) (simp add: stop_def)

lemma loop_stop_next:
  "loop put_fault (Some (Suc k)) k self i p =
     (if running self
      then (case iteration put_fault self i p of
              Inl e \<Rightarrow> Inl e
            | Inr (Next self' i' p') \<Rightarrow> Inr (stop self')
            | Inr (Exit self') \<Rightarrow> Inr self')
      else Inr self)"
  by (subst loop_unfold) (simp add: loop_stop_now split: sum.splits step.splits)

lemma loop_stop_later:
  assumes "j < m"
  shows "loop put_fault (Some m) j self i p =
     (if running self
      then (case iteration put_fault self i p of
              Inl e \<Rightarrow> Inl e
            | Inr (Next self' i' p') \<Rightarrow> loop put_fault (Some m) (Suc j) self' i' p'
            | Inr (Exit self') \<Rightarrow> Inr self')
      else Inr self)"
  using assms by (subst loop_unfold) simp

text \<open>
  Two runs of the loop from the same state, one with the stop seen at test \<open>m\<close>, one with the
  stop seen a test later: the second puts at most one more item.
\<close>

lemma loop_one_more:
  assumes "j \<le> m" and "loop put_fault (Some m) j self i p = Inr a"
  shows "(\<exists>b new. loop put_fault (Some (Suc m)) j self i p = Inr b \<and>
            processing_queue b = processing_queue a @ new \<and> length new \<le> 1) \<or>
         (\<exists>e. loop put_fault (Some (Suc m)) j self i p = Inl e)"
  using assms
proof (induction "m - j" arbitrary: j self i p)
  case 0
  then have j: "j = m" by simp
  with "0.prems" have a: "a = stop self"
    by (simp add: loop_stop_now)
  then have qa: "processing_queue a = processing_queue self"
    by (simp add: stop_def)
  show ?case
  proof (cases "running self")
    case False
    then have "loop put_fault (Some (Suc m)) j self i p = Inr self"
      unfolding j by (simp add: loop_stop_next)
    with qa show ?thesis by simp
  next
    case True
    show ?thesis
    proof (cases "iteration put_fault self i p")
      case (Inl e)
      with True have "loop put_fault (Some (Suc m)) j self i p = Inl e"
        unfolding j by (simp add: loop_stop_next)
      then show ?thesis by simp
    next
      case (Inr r)
      show ?thesis
      proof (cases r)
        case (Exit self')
        with True Inr have "loop put_fault (Some (Suc m)) j self i p = Inr self'"
          unfolding j by (simp add: loop_stop_next)
        moreover have "processing_queue self' = processing_queue self"
          using iteration_Exit Inr Exit by blast
        ultimately show ?thesis using qa by simp
      next
        case (Next self' i' p')
        with True Inr have "loop put_fault (Some (Suc m)) j self i p = Inr (stop self')"
          unfolding j by (simp add: loop_stop_next)
        moreover obtain new where "processing_queue self' = processing_queue self @ new"
            and "length new \<le> 1"
          using iteration_Next [of put_fault self i p self' i' p'] Inr Next by auto
        ultimately show ?thesis using qa by (simp add: stop_def)
      qed
    qed
  qed
next
  case (Suc d)
  then have lt: "j < m" and lt': "j < Suc m" by simp_all
  note first = loop_stop_later [OF lt, of put_fault self i p]
  note second = loop_stop_later [OF lt', of put_fault self i p]
  show ?case
  proof (cases "running self")
    case False
    with first second Suc.prems(2) show ?thesis by simp
  next
    case True
    show ?thesis
    proof (cases "iteration put_fault self i p")
      case (Inl e)
      with True second show ?thesis by simp
    next
      case (Inr r)
      show ?thesis
      proof (cases r)
        case (Exit self')
        with True Inr first second Suc.prems(2) show ?thesis by simp
      next
        case (Next self' i' p')
        have d: "d = m - Suc j" and le: "Suc j \<le> m"
          using Suc.hyps(2) by simp_all
        have "loop put_fault (Some m) (Suc j) self' i' p' = Inr a"
          using True Inr Next first Suc.prems(2) by simp
        with Suc.hyps(1) [OF d le]
        have "(\<exists>b new. loop put_fault (Some (Suc m)) (Suc j) self' i' p' = Inr b \<and>
                 processing_queue b = processing_queue a @ new \<and> length new \<le> 1) \<or>
              (\<exists>e. loop put_fault (Some (Suc m)) (Suc j) self' i' p' = Inl e)" .
        moreover have "loop put_fault (Some (Suc m)) j self i p =
            loop put_fault (Some (Suc m)) (Suc j) self' i' p'"
          using True Inr Next second by simp
        ultimately show ?thesis by simp
      qed
    qed
  qed
qed

text \<open>
  Claim C6. \<^verbatim>\<open>stop()\<close> clears the flag and leaves the process as it is. A pass of the body that
  is under way when the flag is cleared is not cut short: it runs as it would have run, and
  ends with the flag cleared. When the stop arrives during the pass that starts at test \<open>k\<close>
  (\<open>owner_stop = Some (Suc k)\<close>), the loop finishes this one pass and is left at the next test.
  For the whole run: it ends with the queue as it was when that pass began (the queue of the
  run with the stop seen at test \<open>k\<close> already) and at most one more item; unless the pass
  raised an exception that is no instance of \<^verbatim>\<open>Exception\<close>.
\<close>

theorem stop_while_running:
  "(\<not> running (stop self) \<and> decoder (stop self) = decoder self) \<and>
   iteration put_fault (stop self) i p =
     (case iteration put_fault self i p of
        Inl e \<Rightarrow> Inl e
      | Inr (Next self' i' p') \<Rightarrow> Inr (Next (stop self') i' p')
      | Inr (Exit self') \<Rightarrow> Inr (Exit (stop self'))) \<and>
   loop put_fault (Some (Suc k)) k self i p =
     (if running self
      then (case iteration put_fault self i p of
              Inl e \<Rightarrow> Inl e
            | Inr (Next self' i' p') \<Rightarrow> Inr (stop self')
            | Inr (Exit self') \<Rightarrow> Inr self')
      else Inr self) \<and>
   (\<forall>a. run put_fault (Some k) self = Inr a \<longrightarrow>
      (\<exists>b new. run put_fault (Some (Suc k)) self = Inr b \<and>
         processing_queue b = processing_queue a @ new \<and> length new \<le> 1) \<or>
      (\<exists>e. run put_fault (Some (Suc k)) self = Inl e \<and> \<not> isinstance_Exception e))"
proof (intro conjI allI impI)
  show "\<not> running (stop self)" and "decoder (stop self) = decoder self"
    by (simp_all add: stop_def)
  show "iteration put_fault (stop self) i p =
     (case iteration put_fault self i p of
        Inl e \<Rightarrow> Inl e
      | Inr (Next self' i' p') \<Rightarrow> Inr (Next (stop self') i' p')
      | Inr (Exit self') \<Rightarrow> Inr (Exit (stop self')))"
    unfolding stop_def by (rule iteration_flag)
  show "loop put_fault (Some (Suc k)) k self i p =
     (if running self
      then (case iteration put_fault self i p of
              Inl e \<Rightarrow> Inl e
            | Inr (Next self' i' p') \<Rightarrow> Inr (stop self')
            | Inr (Exit self') \<Rightarrow> Inr self')
      else Inr self)"
    by (rule loop_stop_next)
next
  fix a
  assume a: "run put_fault (Some k) self = Inr a"
  let ?start = "self\<lparr>running := True\<rparr>"
  from a obtain a0 where a0: "loop put_fault (Some k) 0 ?start 0 None = Inr a0"
    and qa: "processing_queue a = processing_queue a0"
    by (auto simp: run_def split: sum.splits)
  show "(\<exists>b new. run put_fault (Some (Suc k)) self = Inr b \<and>
           processing_queue b = processing_queue a @ new \<and> length new \<le> 1) \<or>
        (\<exists>e. run put_fault (Some (Suc k)) self = Inl e \<and> \<not> isinstance_Exception e)"
  proof (cases "loop put_fault (Some (Suc k)) 0 ?start 0 None")
    case (Inl e)
    then have r: "run put_fault (Some (Suc k)) self = Inl e"
      by (simp add: run_def)
    with run_exits [where put_fault = put_fault and owner_stop = "Some (Suc k)" and self = self]
    have "\<not> isinstance_Exception e" by simp
    with r show ?thesis by simp
  next
    case (Inr b0)
    have "0 \<le> k" by simp
    from loop_one_more [OF this a0] Inr obtain new
      where "processing_queue b0 = processing_queue a0 @ new" and "length new \<le> 1"
      by auto
    with Inr qa show ?thesis
      by (simp add: run_def)
  qed
qed

lemma run_three_frames_stop_1:
  "run (\<lambda>_ _. None) (Some 1) three_frames =
     Inr \<lparr>running = False, input_path = ''in.mp4'', input_width = 1, input_height = 1,
          processing_queue = [], processing_settings = 7, exception = None,
          decoder = \<lparr>stdout = \<lparr>pending = [4, 5, 6, 7, 8, 9], ending = None, allocatable = 4096\<rparr>, waited = True\<rparr>,
          logger = [Debug ''Decoder thread exiting'']\<rparr>"
  by code_simp

lemma run_three_frames_stop_2:
  "run (\<lambda>_ _. None) (Some 2) three_frames =
     Inr \<lparr>running = False, input_path = ''in.mp4'', input_width = 1, input_height = 1,
          processing_queue =
            [(1, (\<lparr>im_size = (1, 1), im_data = [1, 2, 3]\<rparr>,
                  \<lparr>im_size = (1, 1), im_data = [4, 5, 6]\<rparr>), 7)],
          processing_settings = 7, exception = None,
          decoder = \<lparr>stdout = \<lparr>pending = [7, 8, 9], ending = None, allocatable = 4096\<rparr>, waited = True\<rparr>,
          logger = [Debug ''Decoder thread exiting'']\<rparr>"
  by code_simp

theorem stop_while_running_witness:
  "\<not> running (stop three_frames) \<and> decoder (stop three_frames) = decoder three_frames \<and>
   (\<exists>a b new. run (\<lambda>_ _. None) (Some 1) three_frames = Inr a \<and>
      run (\<lambda>_ _. None) (Some 2) three_frames = Inr b \<and>
      processing_queue b = processing_queue a @ new \<and> length new \<le> 1)"
proof -
  note t = stop_while_running [where self = three_frames and put_fault = "\<lambda>_ _. None"
      and k = 1 and i = 0 and p = None]
  from t have flag: "\<not> running (stop three_frames)"
    and process: "decoder (stop three_frames) = decoder three_frames"
    by simp_all
  obtain a where a: "run (\<lambda>_ _. None) (Some 1) three_frames = Inr a"
    using run_three_frames_stop_1 by simp
  from t a have "(\<exists>b new. run (\<lambda>_ _. None) (Some (Suc 1)) three_frames = Inr b \<and>
         processing_queue b = processing_queue a @ new \<and> length new \<le> 1) \<or>
      (\<exists>e. run (\<lambda>_ _. None) (Some (Suc 1)) three_frames = Inl e \<and> \<not> isinstance_Exception e)"
    by blast
  moreover have "Suc 1 = 2" by simp
  ultimately have "(\<exists>b new. run (\<lambda>_ _. None) (Some 2) three_frames = Inr b \<and>
         processing_queue b = processing_queue a @ new \<and> length new \<le> 1) \<or>
      (\<exists>e. run (\<lambda>_ _. None) (Some 2) three_frames = Inl e \<and> \<not> isinstance_Exception e)"
    by (simp only:)
  moreover have "\<nexists>e. run (\<lambda>_ _. None) (Some 2) three_frames = Inl e"
    unfolding run_three_frames_stop_2 by simp
  ultimately obtain b new where "run (\<lambda>_ _. None) (Some 2) three_frames = Inr b"
    and "processing_queue b = processing_queue a @ new" and "length new \<le> 1"
    by blast
  with a flag process show ?thesis by blast
qed

end
